theory Spec2Isabelle
  imports Main "HOL-Library.Word" "HOL-Library.Sublist"
begin

unbundle bit_operations_syntax

section \<open>Memory: backing arrays, slices and strings\<close>

text \<open>
  The key-derivation functions of \<^verbatim>\<open>pkg/utils/utils.go\<close> write into serialized
  buffers and hand out strings that may share memory with them, so the model has an
  explicit store. A backing array lives at an address; a Go slice is a header
  (pointer, length, capacity) over such an array, and a Go string is a header
  (pointer, length). The content of a string is whatever the store holds at its pointer
  when it is read.
\<close>

type_synonym byte = "8 word"
type_synonym addr = nat

record slice =
  sptr :: addr
  slen :: nat
  scap :: nat

record gostr =
  str_ptr :: addr
  str_len :: nat

text \<open>
  The store. \<open>mem\<close> maps an address to its backing array, \<open>brk\<close> is the next address
  the allocator hands out, \<open>pool_free\<close> lists the buffers lying in the buffer pool and
  \<open>pool_out\<close> those checked out of it and not yet released.
\<close>

record heap =
  mem :: "addr \<Rightarrow> byte list option"
  brk :: addr
  pool_free :: "addr list"
  pool_out :: "addr list"

definition bytes_at :: "heap \<Rightarrow> addr \<Rightarrow> byte list" where
  "bytes_at s a = (case mem s a of None \<Rightarrow> [] | Some bs \<Rightarrow> bs)"

definition alloc :: "byte list \<Rightarrow> heap \<Rightarrow> addr \<times> heap" where
  "alloc bs s = (brk s, s\<lparr>mem := (mem s)(brk s \<mapsto> bs), brk := Suc (brk s)\<rparr>)"

definition read_slice :: "heap \<Rightarrow> slice \<Rightarrow> byte list" where
  "read_slice s sl = take (slen sl) (bytes_at s (sptr sl))"

definition str_bytes :: "heap \<Rightarrow> gostr \<Rightarrow> byte list" where
  "str_bytes s k = take (str_len k) (bytes_at s (str_ptr k))"

text \<open>The empty string \<^verbatim>\<open>""\<close>: a nil pointer and length 0.\<close>

definition empty_str :: gostr where
  "empty_str = \<lparr>str_ptr = 0, str_len = 0\<rparr>"

text \<open>
  \<^verbatim>\<open>sl[i] = v\<close>. An index outside the slice is a run-time panic (\<open>None\<close>).
\<close>

definition set_index :: "slice \<Rightarrow> nat \<Rightarrow> byte \<Rightarrow> heap \<Rightarrow> heap option" where
  "set_index sl i v s =
     (if i < slen sl
      then Some (s\<lparr>mem := (mem s)(sptr sl \<mapsto> (bytes_at s (sptr sl))[i := v])\<rparr>)
      else None)"

text \<open>
  The built-in \<^verbatim>\<open>append(b, p...)\<close>: in place when the capacity suffices, into a
  newly allocated array otherwise.
\<close>

definition append_bytes :: "slice \<Rightarrow> byte list \<Rightarrow> heap \<Rightarrow> slice \<times> heap" where
  "append_bytes b p s =
     (if p = [] then (b, s)
      else if slen b + length p \<le> scap b
      then (b\<lparr>slen := slen b + length p\<rparr>,
            s\<lparr>mem := (mem s)(sptr b \<mapsto>
                 take (slen b) (bytes_at s (sptr b)) @ p @
                 drop (slen b + length p) (bytes_at s (sptr b)))\<rparr>)
      else (let (a, s1) = alloc (read_slice s b @ p) s
            in (\<lparr>sptr = a, slen = slen b + length p, scap = slen b + length p\<rparr>, s1)))"

section \<open>Results\<close>

text \<open>
  A call either panics or returns a string together with Go's \<^verbatim>\<open>error\<close> value
  (\<open>None\<close> is \<^verbatim>\<open>nil\<close>).
\<close>

datatype 'e ret = Panic | Ret gostr "'e option"

text \<open>What a caller can see of a call: the bytes of the returned string, and the error.\<close>

datatype 'e obs = ObsPanic | ObsRet "byte list" "'e option"

definition observe :: "'e ret \<times> heap \<Rightarrow> 'e obs" where
  "observe rs = (case fst rs of Panic \<Rightarrow> ObsPanic | Ret k e \<Rightarrow> ObsRet (str_bytes (snd rs) k) e)"

section \<open>The wire serializer and the buffer pool\<close>

text \<open>
  \<^verbatim>\<open>(*dns.Msg).Pack\<close> belongs to the DNS library. Its encoder is a parameter
  \<open>pack\<close> of the model, from a message to an error or the wire bytes; \<open>Pack\<close> puts
  those bytes into an array of their own.
\<close>

definition Pack :: "('m \<Rightarrow> 'e + byte list) \<Rightarrow> 'm \<Rightarrow> heap \<Rightarrow> ('e + slice) \<times> heap" where
  "Pack pack m s =
     (case pack m of
        Inl e \<Rightarrow> (Inl e, s)
      | Inr w \<Rightarrow> (let (a, s1) = alloc w s
                  in (Inr \<lparr>sptr = a, slen = length w, scap = length w\<rparr>, s1)))"

text \<open>
  Modelled from the spec: the checkout of package \<^verbatim>\<open>pool\<close> is not among the
  sources. It reuses the first buffer lying in the pool that is large enough, with
  whatever bytes it was left with, and allocates one when there is none.
\<close>

definition GetBuf :: "nat \<Rightarrow> heap \<Rightarrow> addr \<times> heap" where
  "GetBuf n s =
     (case find (\<lambda>a. n \<le> length (bytes_at s a)) (pool_free s) of
        Some a \<Rightarrow> (a, s\<lparr>pool_free := remove1 a (pool_free s), pool_out := a # pool_out s\<rparr>)
      | None \<Rightarrow> (let (a, s1) = alloc (replicate n 0) s
                 in (a, s1\<lparr>pool_out := a # pool_out s1\<rparr>)))"

text \<open>
  Modelled from the spec: \<^verbatim>\<open>(*pool.Buffer).Release\<close> is not among the sources. It
  returns the buffer to the pool, where the next checkout can take it.
\<close>

definition Release :: "addr \<Rightarrow> heap \<Rightarrow> heap" where
  "Release b s = s\<lparr>pool_out := remove1 b (pool_out s), pool_free := b # pool_free s\<rparr>"

text \<open>
  Modelled from the spec: \<^verbatim>\<open>pool.PackBuffer\<close> is not among the sources. It checks a
  buffer out of the pool and serializes into it; the returned bytes are a view into that
  buffer. When the serializer fails, the buffer checked out is released before the error
  is returned, and no buffer is handed to the caller.
\<close>

definition PackBuffer ::
  "('m \<Rightarrow> 'e + byte list) \<Rightarrow> 'm \<Rightarrow> heap \<Rightarrow> ('e + slice \<times> addr) \<times> heap" where
  "PackBuffer pack m s =
     (case pack m of
        Inl e \<Rightarrow> (let (b, s1) = GetBuf 0 s in (Inl e, Release b s1))
      | Inr w \<Rightarrow>
          (let (b, s1) = GetBuf (length w) s;
               s2 = s1\<lparr>mem := (mem s1)(b \<mapsto> w @ drop (length w) (bytes_at s1 b))\<rparr>
           in (Inr (\<lparr>sptr = b, slen = length w, scap = length (bytes_at s1 b)\<rparr>, b), s2)))"

section \<open>\<^verbatim>\<open>strings.Builder\<close>\<close>

text \<open>
  A builder is its byte slice \<^verbatim>\<open>buf\<close>. \<^verbatim>\<open>Grow\<close> moves to a larger array when fewer
  than \<open>n\<close> bytes are free, \<^verbatim>\<open>Write\<close> appends, and \<^verbatim>\<open>String\<close> returns a string
  over the builder's own array.
\<close>

definition new_Builder :: slice where
  "new_Builder = \<lparr>sptr = 0, slen = 0, scap = 0\<rparr>"

definition Grow :: "slice \<Rightarrow> nat \<Rightarrow> heap \<Rightarrow> slice \<times> heap" where
  "Grow b n s =
     (if scap b - slen b < n
      then (let c = 2 * scap b + n;
                (a, s1) = alloc (read_slice s b @ replicate (c - slen b) 0) s
            in (\<lparr>sptr = a, slen = slen b, scap = c\<rparr>, s1))
      else (b, s))"

definition Write :: "slice \<Rightarrow> byte list \<Rightarrow> heap \<Rightarrow> slice \<times> heap" where
  "Write b p s = append_bytes b p s"

definition String :: "slice \<Rightarrow> gostr" where
  "String b = \<lparr>str_ptr = sptr b, str_len = slen b\<rparr>"

section \<open>Key derivation\<close>

text \<open>
  \<^verbatim>\<open>BytesToStringUnsafe\<close> reinterprets the slice header as a string header: the
  string shares the slice's array.
\<close>

definition BytesToStringUnsafe :: "slice \<Rightarrow> gostr" where
  "BytesToStringUnsafe b = \<lparr>str_ptr = sptr b, str_len = slen b\<rparr>"

text \<open>\<^verbatim>\<open>GetMsgKey\<close>; \<open>salt\<close> is a \<^verbatim>\<open>uint16\<close>.\<close>

definition GetMsgKey ::
  "('m \<Rightarrow> 'e + byte list) \<Rightarrow> 'm \<Rightarrow> 16 word \<Rightarrow> heap \<Rightarrow> 'e ret \<times> heap" where
  "GetMsgKey pack m salt s =
     (case Pack pack m s of
        (Inl e, s1) \<Rightarrow> (Ret empty_str (Some e), s1)
      | (Inr wireMsg, s1) \<Rightarrow>
          (case set_index wireMsg 0 (ucast (drop_bit 8 salt)) s1 of
             None \<Rightarrow> (Panic, s1)
           | Some s2 \<Rightarrow>
               (case set_index wireMsg 1 (ucast salt) s2 of
                  None \<Rightarrow> (Panic, s2)
                | Some s3 \<Rightarrow> (Ret (BytesToStringUnsafe wireMsg) None, s3))))"

text \<open>
  \<^verbatim>\<open>GetMsgKeyWithBytesSalt\<close>. The salt is only read, so its bytes are passed as a
  value. The deferred \<^verbatim>\<open>buf.Release()\<close> is registered after the error check; from
  there on it runs on every way out, a panic included.
\<close>

definition GetMsgKeyWithBytesSalt ::
  "('m \<Rightarrow> 'e + byte list) \<Rightarrow> 'm \<Rightarrow> byte list \<Rightarrow> heap \<Rightarrow> 'e ret \<times> heap" where
  "GetMsgKeyWithBytesSalt pack m salt s =
     (case PackBuffer pack m s of
        (Inl e, s1) \<Rightarrow> (Ret empty_str (Some e), s1)
      | (Inr (wireMsg, buf), s1) \<Rightarrow>
          (case set_index wireMsg 0 0 s1 of
             None \<Rightarrow> (Panic, Release buf s1)
           | Some s2 \<Rightarrow>
               (case set_index wireMsg 1 0 s2 of
                  None \<Rightarrow> (Panic, Release buf s2)
                | Some s3 \<Rightarrow>
                    (let (sb1, s4) = Grow new_Builder (slen wireMsg + length salt) s3;
                         (sb2, s5) = Write sb1 (read_slice s4 wireMsg) s4;
                         (sb3, s6) = Write sb2 salt s5
                     in (Ret (String sb3) None, Release buf s6)))))"

text \<open>
  \<^verbatim>\<open>binary.BigEndian.PutUint64\<close> on a byte slice passed as a value; fewer than
  eight bytes is a panic.
\<close>

definition PutUint64 :: "byte list \<Rightarrow> 64 word \<Rightarrow> byte list option" where
  "PutUint64 b v =
     (if length b \<le> 7 then None
      else Some (b[0 := ucast (drop_bit 56 v),
                   1 := ucast (drop_bit 48 v),
                   2 := ucast (drop_bit 40 v),
                   3 := ucast (drop_bit 32 v),
                   4 := ucast (drop_bit 24 v),
                   5 := ucast (drop_bit 16 v),
                   6 := ucast (drop_bit 8 v),
                   7 := ucast v]))"

text \<open>
  \<^verbatim>\<open>GetMsgKeyWithInt64Salt\<close>. An \<^verbatim>\<open>int64\<close> is a 64-bit word read in two's
  complement (\<open>sint\<close>); the conversion \<^verbatim>\<open>uint64(salt)\<close> keeps its bits.
\<close>

definition GetMsgKeyWithInt64Salt ::
  "('m \<Rightarrow> 'e + byte list) \<Rightarrow> 'm \<Rightarrow> 64 word \<Rightarrow> heap \<Rightarrow> 'e ret \<times> heap" where
  "GetMsgKeyWithInt64Salt pack m salt s =
     (case PutUint64 (replicate 8 0) salt of
        None \<Rightarrow> (Panic, s)
      | Some b \<Rightarrow> GetMsgKeyWithBytesSalt pack m b s)"

section \<open>Splitting strings\<close>

text \<open>
  \<^verbatim>\<open>SplitString2\<close> neither writes nor shares memory, so its strings are plain byte
  sequences. \<^verbatim>\<open>strings.Index\<close> is the position of the first occurrence, or -1.
\<close>

fun Index :: "string \<Rightarrow> string \<Rightarrow> int" where
  "Index [] symbol = (if symbol = [] then 0 else -1)"
| "Index (c # cs) symbol =
     (if prefix symbol (c # cs) then 0
      else (let r = Index cs symbol in if r < 0 then -1 else r + 1))"

text \<open>
  The slice expression \<^verbatim>\<open>s[lo:hi]\<close>; bounds out of order or beyond the string are a
  panic.
\<close>

definition substr :: "string \<Rightarrow> int \<Rightarrow> int \<Rightarrow> string option" where
  "substr s lo hi =
     (if 0 \<le> lo \<and> lo \<le> hi \<and> hi \<le> int (length s)
      then Some (take (nat hi - nat lo) (drop (nat lo) s))
      else None)"

definition SplitString2 :: "string \<Rightarrow> string \<Rightarrow> (string \<times> string \<times> bool) option" where
  "SplitString2 s symbol =
     (if length symbol = 0 then Some ([], s, True)
      else (let i = Index s symbol
            in if i \<ge> 0
               then (case substr s 0 i of
                       None \<Rightarrow> None
                     | Some s1 \<Rightarrow>
                         (case substr s (i + int (length symbol)) (int (length s)) of
                            None \<Rightarrow> None
                          | Some s2 \<Rightarrow> Some (s1, s2, True)))
               else Some ([], [], False)))"

section \<open>The big-endian encoding, in the specification's words\<close>

text \<open>
  The specification speaks of the 8-byte big-endian encoding of the salt taken as an
  unsigned 64-bit value. \<open>big_endian_spec k n\<close> is the \<open>k\<close>-byte big-endian
  encoding of the number \<open>n\<close>: its base-256 digits, the most significant first.
  \<open>uint64_value\<close> is the number an \<^verbatim>\<open>int64\<close> stands for when taken as unsigned.
\<close>

fun big_endian_spec :: "nat \<Rightarrow> nat \<Rightarrow> byte list" where
  "big_endian_spec 0 n = []"
| "big_endian_spec (Suc k) n = big_endian_spec k (n div 256) @ [of_nat (n mod 256)]"

definition uint64_value :: "64 word \<Rightarrow> nat" where
  "uint64_value salt = nat (sint salt mod 2 ^ 64)"

section \<open>Well-formed stores\<close>

text \<open>
  Every buffer of the pool, lying in it or checked out, has been allocated: its address
  is below the allocator's next address.
\<close>

definition pool_ok :: "heap \<Rightarrow> bool" where
  "pool_ok s = list_all (\<lambda>a. a < brk s) (pool_free s @ pool_out s)"

text \<open>The store at start-up: nothing allocated, an empty pool; address 0 is nil.\<close>

definition heap0 :: heap where
  "heap0 = \<lparr>mem = (\<lambda>_. None), brk = 1, pool_free = [], pool_out = []\<rparr>"

section \<open>The pool operations\<close>

lemma GetBuf_ok:
  assumes "pool_ok s" "GetBuf n s = (b, s1)"
  shows "pool_ok s1 \<and> b < brk s1 \<and> n \<le> length (bytes_at s1 b) \<and> pool_out s1 = b # pool_out s
     \<and> brk s \<le> brk s1 \<and> (b \<in> set (pool_free s) \<or> brk s \<le> b)
     \<and> set (pool_free s1) \<subseteq> set (pool_free s)
     \<and> (\<forall>a. a < brk s \<longrightarrow> mem s1 a = mem s a)"
proof (cases "find (\<lambda>a. n \<le> length (bytes_at s a)) (pool_free s)")
  case None
  with assms(2) have b: "b = brk s"
    and s1: "s1 = s\<lparr>mem := (mem s)(brk s \<mapsto> replicate n 0), brk := Suc (brk s), pool_out := brk s # pool_out s\<rparr>"
    by (auto simp: GetBuf_def alloc_def)
  show ?thesis using assms(1) unfolding b s1
    by (auto simp: pool_ok_def list_all_iff bytes_at_def less_Suc_eq)
next
  case (Some a)
  with assms(2) have b: "b = a"
    and s1: "s1 = s\<lparr>pool_free := remove1 a (pool_free s), pool_out := a # pool_out s\<rparr>"
    by (auto simp: GetBuf_def)
  from Some have a: "a \<in> set (pool_free s)" "n \<le> length (bytes_at s a)"
    by (auto simp: find_Some_iff)
  show ?thesis using assms(1) a set_remove1_subset [of a "pool_free s"] unfolding b s1
    by (auto simp: pool_ok_def list_all_iff bytes_at_def)
qed

lemma PackBuffer_Inr:
  assumes "pool_ok s" "pack m = Inr w"
  shows "\<exists>b c s1. PackBuffer pack m s = (Inr (\<lparr>sptr = b, slen = length w, scap = c\<rparr>, b), s1)
      \<and> pool_ok s1 \<and> b < brk s1 \<and> take (length w) (bytes_at s1 b) = w
      \<and> pool_out s1 = b # pool_out s \<and> brk s \<le> brk s1
      \<and> (b \<in> set (pool_free s) \<or> brk s \<le> b)
      \<and> set (pool_free s1) \<subseteq> set (pool_free s)
      \<and> (\<forall>a. a < brk s \<longrightarrow> a \<noteq> b \<longrightarrow> mem s1 a = mem s a)"
proof -
  obtain b s0 where g: "GetBuf (length w) s = (b, s0)" by (cases "GetBuf (length w) s")
  note G = GetBuf_ok [OF assms(1) g]
  show ?thesis
    using G assms(2) g
    by (auto simp: PackBuffer_def pool_ok_def list_all_iff bytes_at_def)
qed

lemma PackBuffer_Inl:
  assumes "pool_ok s" "pack m = Inl e"
  shows "\<exists>b s1. PackBuffer pack m s = (Inl e, s1)
      \<and> pool_ok s1 \<and> pool_out s1 = pool_out s \<and> brk s \<le> brk s1
      \<and> set (pool_free s1) \<subseteq> insert b (set (pool_free s)) \<and> b \<in> set (pool_free s1)
      \<and> b = fst (GetBuf 0 s)
      \<and> (\<forall>a. a < brk s \<longrightarrow> mem s1 a = mem s a)"
proof -
  obtain b s0 where g: "GetBuf 0 s = (b, s0)" by (cases "GetBuf 0 s")
  note G = GetBuf_ok [OF assms(1) g]
  show ?thesis
    using G assms(2) g
    by (auto simp: PackBuffer_def pool_ok_def list_all_iff Release_def)
qed


section \<open>What the entry points do to the store\<close>

lemma two_bytes: "2 \<le> length w \<Longrightarrow> \<exists>x y r. w = x # y # r"
  by (cases w; cases "tl w"; simp)

lemma low_byte: "(ucast (salt AND 255 :: 16 word) :: 8 word) = ucast salt"
proof -
  have m: "(255 :: 16 word) = mask 8"
    by (simp add: mask_eq_exp_minus_1)
  show ?thesis
    unfolding m by (rule bit_word_eqI) (auto simp: bit_simps)
qed

lemma GetMsgKey_Inl:
  "pack m = Inl e \<Longrightarrow> GetMsgKey pack m salt s = (Ret empty_str (Some e), s)"
  by (simp add: GetMsgKey_def Pack_def)

lemma GetMsgKey_short:
  assumes "pack m = Inr w" and "length w < 2"
  shows "fst (GetMsgKey pack m salt s) = Panic"
proof -
  from assms(2) have "w = [] \<or> (\<exists>x. w = [x])"
    by (cases w; cases "tl w"; simp)
  with assms(1) show ?thesis
    by (auto simp: GetMsgKey_def Pack_def alloc_def set_index_def)
qed

lemma GetMsgKey_Inr:
  assumes "pack m = Inr (x # y # w)"
  shows "GetMsgKey pack m salt s =
           (Ret \<lparr>str_ptr = brk s, str_len = 2 + length w\<rparr> None,
            s\<lparr>mem := (mem s)(brk s \<mapsto> ucast (drop_bit 8 salt) # ucast salt # w), brk := Suc (brk s)\<rparr>)"
  using assms
  by (simp add: GetMsgKey_def Pack_def alloc_def set_index_def bytes_at_def BytesToStringUnsafe_def)

lemma BytesSalt_Inr:
  assumes ok: "pool_ok s" and pk: "pack m = Inr (x # y # w)"
  shows "\<exists>k s' wireMsg buf. fst (PackBuffer pack m s) = Inr (wireMsg, buf) \<and> sptr wireMsg = buf
      \<and> GetMsgKeyWithBytesSalt pack m salt s = (Ret k None, s')
      \<and> str_bytes s' k = 0 # 0 # w @ salt
      \<and> str_len k = 2 + length w + length salt
      \<and> pool_ok s' \<and> pool_out s' = pool_out s
      \<and> buf \<in> set (pool_free s') \<and> str_ptr k \<noteq> buf
      \<and> str_ptr k < brk s' \<and> str_ptr k \<notin> set (pool_free s') \<and> str_ptr k \<notin> set (pool_out s')
      \<and> brk s \<le> brk s'
      \<and> (\<forall>a. a < brk s \<longrightarrow> a \<notin> set (pool_free s) \<longrightarrow> mem s' a = mem s a)"
proof -
  from PackBuffer_Inr [where pack = pack and m = m, OF ok pk] obtain b c s1 where
    pb: "PackBuffer pack m s = (Inr (\<lparr>sptr = b, slen = length (x # y # w), scap = c\<rparr>, b), s1)"
    and ok1: "pool_ok s1" and b: "b < brk s1"
    and w: "take (length (x # y # w)) (bytes_at s1 b) = x # y # w"
    and out: "pool_out s1 = b # pool_out s" and brk: "brk s \<le> brk s1"
    and bfree: "b \<in> set (pool_free s) \<or> brk s \<le> b"
    and free: "set (pool_free s1) \<subseteq> set (pool_free s)"
    and frame: "\<forall>a. a < brk s \<longrightarrow> a \<noteq> b \<longrightarrow> mem s1 a = mem s a"
    by blast
  define bs where "bs = bytes_at s1 b"
  from w obtain r where bs: "bs = x # y # w @ r"
    unfolding bs_def by (metis append_Cons append_take_drop_id)
  have m1: "mem s1 b = Some bs \<or> bs = []"
    unfolding bs_def bytes_at_def by (cases "mem s1 b") auto
  with bs have m1: "mem s1 b = Some (x # y # w @ r)" by auto
  have pb': "PackBuffer pack m s =
      (Inr (\<lparr>sptr = b, slen = Suc (Suc (length w)), scap = c\<rparr>, b), s1)"
    using pb by simp
  have s3: "set_index \<lparr>sptr = b, slen = Suc (Suc (length w)), scap = c\<rparr> 0 0 s1 =
              Some (s1\<lparr>mem := (mem s1)(b \<mapsto> 0 # y # w @ r)\<rparr>)"
    by (simp add: set_index_def bytes_at_def m1)
  have s4: "set_index \<lparr>sptr = b, slen = Suc (Suc (length w)), scap = c\<rparr> (Suc 0) 0
              (s1\<lparr>mem := (mem s1)(b \<mapsto> 0 # y # w @ r)\<rparr>) =
              Some (s1\<lparr>mem := (mem s1)(b \<mapsto> 0 # 0 # w @ r)\<rparr>)"
    by (simp add: set_index_def bytes_at_def)
  define s5 where "s5 = s1\<lparr>mem := (mem s1)(b \<mapsto> 0 # 0 # w @ r,
      brk s1 \<mapsto> replicate (Suc (Suc (length w + length salt))) 0), brk := Suc (brk s1)\<rparr>"
  have g: "Grow new_Builder (Suc (Suc (length w + length salt)))
             (s1\<lparr>mem := (mem s1)(b \<mapsto> 0 # 0 # w @ r)\<rparr>) =
           (\<lparr>sptr = brk s1, slen = 0, scap = Suc (Suc (length w + length salt))\<rparr>, s5)"
    by (simp add: Grow_def new_Builder_def alloc_def read_slice_def s5_def)
  have rd: "read_slice s5 \<lparr>sptr = b, slen = Suc (Suc (length w)), scap = c\<rparr> = 0 # 0 # w"
    using b by (simp add: read_slice_def bytes_at_def s5_def)
  define s6 where "s6 = s5\<lparr>mem := (mem s5)(brk s1 \<mapsto> 0 # 0 # w @ replicate (length salt) 0)\<rparr>"
  have w1: "Write \<lparr>sptr = brk s1, slen = 0, scap = Suc (Suc (length w + length salt))\<rparr> (0 # 0 # w) s5 =
           (\<lparr>sptr = brk s1, slen = Suc (Suc (length w)), scap = Suc (Suc (length w + length salt))\<rparr>, s6)"
    by (simp add: Write_def append_bytes_def bytes_at_def s5_def s6_def)
  define s7 where "s7 = s6\<lparr>mem := (mem s6)(brk s1 \<mapsto> 0 # 0 # w @ salt)\<rparr>"
  have w2: "Write \<lparr>sptr = brk s1, slen = Suc (Suc (length w)), scap = Suc (Suc (length w + length salt))\<rparr> salt s6 =
           (\<lparr>sptr = brk s1, slen = Suc (Suc (length w + length salt)), scap = Suc (Suc (length w + length salt))\<rparr>, s7)"
    by (cases "salt = []") (auto simp: Write_def append_bytes_def bytes_at_def s6_def s7_def s5_def)
  have r: "GetMsgKeyWithBytesSalt pack m salt s =
             (Ret \<lparr>str_ptr = brk s1, str_len = Suc (Suc (length w + length salt))\<rparr> None, Release b s7)"
    by (simp add: GetMsgKeyWithBytesSalt_def pb' s3 s4 g rd w1 w2 String_def)
  show ?thesis
    using ok1 b out brk bfree free frame
    by (auto simp: r pb' Release_def str_bytes_def bytes_at_def s7_def s6_def s5_def
        pool_ok_def list_all_iff less_Suc_eq)
qed

lemma BytesSalt_Inl:
  assumes ok: "pool_ok s" and pk: "pack m = Inl e"
  shows "\<exists>s'. GetMsgKeyWithBytesSalt pack m salt s = (Ret empty_str (Some e), s')
      \<and> pool_ok s' \<and> pool_out s' = pool_out s \<and> brk s \<le> brk s'
      \<and> fst (GetBuf 0 s) \<in> set (pool_free s')
      \<and> (\<forall>a. a < brk s \<longrightarrow> mem s' a = mem s a)"
  using PackBuffer_Inl [where pack = pack and m = m, OF ok pk]
  by (auto simp: GetMsgKeyWithBytesSalt_def)

lemma BytesSalt_short:
  assumes ok: "pool_ok s" and pk: "pack m = Inr w" and len: "length w < 2"
  shows "\<exists>s'. GetMsgKeyWithBytesSalt pack m salt s = (Panic, s')
      \<and> pool_ok s' \<and> pool_out s' = pool_out s \<and> brk s \<le> brk s'
      \<and> (\<forall>a. a < brk s \<longrightarrow> a \<notin> set (pool_free s) \<longrightarrow> mem s' a = mem s a)"
proof -
  from PackBuffer_Inr [where pack = pack and m = m, OF ok pk] obtain b c s1 where
    pb: "PackBuffer pack m s = (Inr (\<lparr>sptr = b, slen = length w, scap = c\<rparr>, b), s1)"
    and ok1: "pool_ok s1" and b: "b < brk s1"
    and out: "pool_out s1 = b # pool_out s" and brk: "brk s \<le> brk s1"
    and bfree: "b \<in> set (pool_free s) \<or> brk s \<le> b"
    and free: "set (pool_free s1) \<subseteq> set (pool_free s)"
    and frame: "\<forall>a. a < brk s \<longrightarrow> a \<noteq> b \<longrightarrow> mem s1 a = mem s a"
    by blast
  from len have "length w = 0 \<or> length w = 1" by arith
  then show ?thesis
    using ok1 b out brk bfree free frame
    by (auto simp: GetMsgKeyWithBytesSalt_def pb set_index_def Release_def pool_ok_def list_all_iff)
qed

lemma BytesSalt_frame:
  assumes ok: "pool_ok s"
  shows "pool_ok (snd (GetMsgKeyWithBytesSalt pack m salt s))
     \<and> pool_out (snd (GetMsgKeyWithBytesSalt pack m salt s)) = pool_out s
     \<and> brk s \<le> brk (snd (GetMsgKeyWithBytesSalt pack m salt s))
     \<and> (\<forall>a. a < brk s \<longrightarrow> a \<notin> set (pool_free s) \<longrightarrow>
            mem (snd (GetMsgKeyWithBytesSalt pack m salt s)) a = mem s a)"
proof (cases "pack m")
  case (Inl e)
  from BytesSalt_Inl [where pack = pack and m = m and salt = salt, OF ok Inl] show ?thesis
    by auto
next
  case (Inr w)
  show ?thesis
  proof (cases "length w < 2")
    case True
    from BytesSalt_short [where pack = pack and m = m and salt = salt, OF ok Inr True]
    show ?thesis
      by auto
  next
    case False
    then have "2 \<le> length w" by simp
    from two_bytes [OF this] obtain x y r where w: "w = x # y # r"
      by blast
    from Inr have "pack m = Inr (x # y # r)"
      by (simp add: w)
    from BytesSalt_Inr [where pack = pack and m = m and salt = salt, OF ok this]
    show ?thesis
      by auto
  qed
qed

section \<open>The bytes written by \<^verbatim>\<open>PutUint64\<close>\<close>

lemma byte_of_shift:
  "(ucast (drop_bit k (v :: 64 word)) :: byte) = of_nat (unat v div 2 ^ k mod 256)"
proof -
  have "(ucast (drop_bit k v) :: byte) = of_nat (unat (drop_bit k v))"
    by simp
  also have "unat (drop_bit k v) = unat v div 2 ^ k"
    unfolding unat_drop_bit_eq by (rule drop_bit_eq_div)
  also have "(of_nat (unat v div 2 ^ k) :: byte) = of_nat (unat v div 2 ^ k mod 256)"
    by (simp add: word_of_nat_eq_iff take_bit_eq_mod)
  finally show ?thesis .
qed

lemma big_endian_spec_8:
  "big_endian_spec 8 n =
     [of_nat (n div 2 ^ 56 mod 256), of_nat (n div 2 ^ 48 mod 256),
      of_nat (n div 2 ^ 40 mod 256), of_nat (n div 2 ^ 32 mod 256),
      of_nat (n div 2 ^ 24 mod 256), of_nat (n div 2 ^ 16 mod 256),
      of_nat (n div 2 ^ 8 mod 256), of_nat (n mod 256)]"
proof -
  have "big_endian_spec (Suc (Suc (Suc (Suc (Suc (Suc (Suc (Suc 0)))))))) n =
     [of_nat (n div 2 ^ 56 mod 256), of_nat (n div 2 ^ 48 mod 256),
      of_nat (n div 2 ^ 40 mod 256), of_nat (n div 2 ^ 32 mod 256),
      of_nat (n div 2 ^ 24 mod 256), of_nat (n div 2 ^ 16 mod 256),
      of_nat (n div 2 ^ 8 mod 256), of_nat (n mod 256)]"
    by (simp add: div_mult2_eq [symmetric])
  moreover have "(8::nat) = Suc (Suc (Suc (Suc (Suc (Suc (Suc (Suc 0)))))))"
    by simp
  ultimately show ?thesis by (simp only:)
qed

lemma PutUint64_bytes:
  "PutUint64 (replicate 8 0) v = Some (big_endian_spec 8 (unat v))"
proof -
  have e: "replicate 8 (0::byte) = [0, 0, 0, 0, 0, 0, 0, 0]"
    by (simp add: numeral_eq_Suc)
  have l: "(ucast v :: byte) = of_nat (unat v mod 256)"
    using byte_of_shift [of 0 v] by simp
  show ?thesis
    unfolding PutUint64_def e big_endian_spec_8
    by (simp add: byte_of_shift l)
qed

lemma uint64_value_unat: "uint64_value v = unat v"
proof -
  have "unat v = nat (uint v)"
    by simp
  also have "uint v = sint v mod 2 ^ 64"
    by (simp add: uint_sint take_bit_eq_mod)
  finally show ?thesis
    by (simp add: uint64_value_def)
qed

lemma Int64Salt_unfold:
  "GetMsgKeyWithInt64Salt pack m N s =
     GetMsgKeyWithBytesSalt pack m (big_endian_spec 8 (unat N)) s"
  by (simp add: GetMsgKeyWithInt64Salt_def PutUint64_bytes)

section \<open>Well-formedness is an invariant\<close>

text \<open>
  The store at start-up is well formed, and every entry point leaves a well-formed store
  well formed (for \<^verbatim>\<open>GetMsgKeyWithBytesSalt\<close> this is part of \<open>BytesSalt_frame\<close>).
\<close>

lemma heap0_ok: "pool_ok heap0"
  by (simp add: pool_ok_def heap0_def)

lemma GetMsgKey_pool_ok:
  assumes "pool_ok s"
  shows "pool_ok (snd (GetMsgKey pack m salt s))"
  using assms
  by (auto simp: GetMsgKey_def Pack_def alloc_def set_index_def pool_ok_def list_all_iff
      less_Suc_eq split: sum.splits)

lemma Int64Salt_pool_ok:
  assumes "pool_ok s"
  shows "pool_ok (snd (GetMsgKeyWithInt64Salt pack m salt s))"
  using BytesSalt_frame [where pack = pack and m = m, OF assms]
  by (simp add: Int64Salt_unfold)

section \<open>What a caller observes\<close>

lemma empty_str_bytes: "str_bytes s empty_str = []"
  by (simp add: str_bytes_def empty_str_def)

lemma GetMsgKey_observe:
  "observe (GetMsgKey pack m salt s) =
     (case pack m of
        Inl e \<Rightarrow> ObsRet [] (Some e)
      | Inr w \<Rightarrow> if length w < 2 then ObsPanic
                 else ObsRet (ucast (drop_bit 8 salt) # ucast salt # drop 2 w) None)"
proof (cases "pack m")
  case (Inl e)
  from GetMsgKey_Inl [where pack = pack and m = m, OF Inl] show ?thesis
    by (simp add: Inl observe_def empty_str_bytes)
next
  case (Inr w)
  show ?thesis
  proof (cases "length w < 2")
    case True
    from GetMsgKey_short [where pack = pack and m = m, OF Inr True] show ?thesis
      by (simp add: Inr True observe_def)
  next
    case False
    then have "2 \<le> length w" by simp
    from two_bytes [OF this] obtain x y r where w: "w = x # y # r"
      by blast
    from Inr have "pack m = Inr (x # y # r)"
      by (simp add: w)
    from GetMsgKey_Inr [where pack = pack and m = m, OF this] show ?thesis
      by (simp add: Inr w observe_def str_bytes_def bytes_at_def)
  qed
qed

lemma BytesSalt_observe:
  assumes ok: "pool_ok s"
  shows "observe (GetMsgKeyWithBytesSalt pack m salt s) =
     (case pack m of
        Inl e \<Rightarrow> ObsRet [] (Some e)
      | Inr w \<Rightarrow> if length w < 2 then ObsPanic
                 else ObsRet (0 # 0 # drop 2 w @ salt) None)"
proof (cases "pack m")
  case (Inl e)
  from BytesSalt_Inl [where pack = pack and m = m and salt = salt, OF ok Inl] show ?thesis
    by (auto simp: Inl observe_def empty_str_bytes)
next
  case (Inr w)
  show ?thesis
  proof (cases "length w < 2")
    case True
    from BytesSalt_short [where pack = pack and m = m and salt = salt, OF ok Inr True] show ?thesis
      by (auto simp: Inr True observe_def)
  next
    case False
    then have "2 \<le> length w" by simp
    from two_bytes [OF this] obtain x y r where w: "w = x # y # r"
      by blast
    from Inr have "pack m = Inr (x # y # r)"
      by (simp add: w)
    from BytesSalt_Inr [where pack = pack and m = m and salt = salt, OF ok this] show ?thesis
      by (auto simp: Inr w observe_def)
  qed
qed

lemma rest_equal:
  assumes "length w1 = length w2" and "\<forall>i<length w1. 2 \<le> i \<longrightarrow> w1 ! i = w2 ! i"
  shows "drop 2 w1 = drop 2 w2"
  using assms by (intro nth_equalityI) auto

section \<open>\<^verbatim>\<open>strings.Index\<close> and \<^verbatim>\<open>SplitString2\<close>\<close>

lemma Index_range:
  "Index s symbol = - 1 \<or> (0 \<le> Index s symbol \<and> Index s symbol + int (length symbol) \<le> int (length s))"
proof (induction s symbol rule: Index.induct)
  case (1 symbol)
  then show ?case by simp
next
  case (2 c cs symbol)
  then show ?case
    by (auto simp: Let_def dest: prefix_length_le)
qed

lemma Index_first:
  assumes "0 \<le> Index s symbol"
  shows "prefix symbol (drop (nat (Index s symbol)) s)
       \<and> (\<forall>j<nat (Index s symbol). \<not> prefix symbol (drop j s))"
  using assms
proof (induction s symbol rule: Index.induct)
  case (1 symbol)
  then show ?case by (simp split: if_splits)
next
  case (2 c cs symbol)
  show ?case
  proof (cases "prefix symbol (c # cs)")
    case True
    then show ?thesis by simp
  next
    case False
    with "2.prems" have r: "0 \<le> Index cs symbol"
      by (simp add: Let_def split: if_splits)
    with False have i: "Index (c # cs) symbol = Index cs symbol + 1"
      by (simp add: Let_def)
    from r have n: "nat (Index cs symbol + 1) = Suc (nat (Index cs symbol))"
      by simp
    from "2.IH" [OF False r] False show ?thesis
      unfolding i n by (auto simp: less_Suc_eq_0_disj)
  qed
qed

lemma SplitString2_found:
  assumes "symbol \<noteq> []" and "0 \<le> Index s symbol"
  shows "SplitString2 s symbol =
           Some (take (nat (Index s symbol)) s,
                 drop (nat (Index s symbol) + length symbol) s, True)"
proof -
  from Index_range [of s symbol] assms(2)
  have "Index s symbol + int (length symbol) \<le> int (length s)"
    by auto
  with assms show ?thesis
    by (simp add: SplitString2_def substr_def Let_def nat_add_distrib)
qed

lemma SplitString2_missing:
  assumes "symbol \<noteq> []" and "\<not> 0 \<le> Index s symbol"
  shows "SplitString2 s symbol = Some ([], [], False)"
  using assms by (simp add: SplitString2_def Let_def)

section \<open>Running the model on concrete stores\<close>

lemmas run_defs =
  GetMsgKeyWithBytesSalt_def PackBuffer_def GetBuf_def alloc_def Release_def
  set_index_def bytes_at_def Grow_def new_Builder_def read_slice_def Write_def append_bytes_def
  String_def heap0_def str_bytes_def

section \<open>The claims\<close>

text \<open>
  C1. Two messages whose wire serializations are byte-identical except in the first two
  bytes, the transaction id, get identical keys for a fixed salt, from \<^verbatim>\<open>GetMsgKey\<close>
  and from \<^verbatim>\<open>GetMsgKeyWithBytesSalt\<close> alike.
\<close>

theorem transaction_id_independence:
  assumes "pack m1 = Inr w1" and "pack m2 = Inr w2"
    and "2 \<le> length w1" and "length w1 = length w2"
    and "\<forall>i<length w1. 2 \<le> i \<longrightarrow> w1 ! i = w2 ! i"
    and "pool_ok s1" and "pool_ok s2"
  shows "(\<exists>k. observe (GetMsgKey pack m1 salt s1) = ObsRet k None
            \<and> observe (GetMsgKey pack m2 salt s2) = ObsRet k None)
       \<and> (\<exists>k. observe (GetMsgKeyWithBytesSalt pack m1 bsalt s1) = ObsRet k None
            \<and> observe (GetMsgKeyWithBytesSalt pack m2 bsalt s2) = ObsRet k None)"
proof -
  from assms(4,5) have "drop 2 w1 = drop 2 w2"
    by (rule rest_equal)
  with assms show ?thesis
    by (simp add: GetMsgKey_observe BytesSalt_observe)
qed

theorem transaction_id_independence_witness:
  "(2::nat) \<le> length [0x12, 0x34, 7, 8 :: byte]
   \<and> length [0x12, 0x34, 7, 8 :: byte] = length [0xAB, 0xCD, 7, 8 :: byte]
   \<and> drop 2 [0x12, 0x34, 7, 8 :: byte] = drop 2 [0xAB, 0xCD, 7, 8]
   \<and> pool_ok heap0
   \<and> (\<exists>k. observe (GetMsgKey (Inr :: byte list \<Rightarrow> unit + byte list) [0x12, 0x34, 7, 8] 5 heap0) =
              ObsRet k None
          \<and> observe (GetMsgKey (Inr :: byte list \<Rightarrow> unit + byte list) [0xAB, 0xCD, 7, 8] 5 heap0) =
              ObsRet k None)
   \<and> (\<exists>k. observe (GetMsgKeyWithBytesSalt (Inr :: byte list \<Rightarrow> unit + byte list)
                [0x12, 0x34, 7, 8] [1, 2] heap0) = ObsRet k None
          \<and> observe (GetMsgKeyWithBytesSalt (Inr :: byte list \<Rightarrow> unit + byte list)
                [0xAB, 0xCD, 7, 8] [1, 2] heap0) = ObsRet k None)"
proof -
  have h1: "(2::nat) \<le> length [0x12, 0x34, 7, 8 :: byte]"
    and h2: "length [0x12, 0x34, 7, 8 :: byte] = length [0xAB, 0xCD, 7, 8 :: byte]"
    by simp_all
  have h3: "\<forall>i<length [0x12, 0x34, 7, 8 :: byte].
         2 \<le> i \<longrightarrow> [0x12, 0x34, 7, 8 :: byte] ! i = [0xAB, 0xCD, 7, 8] ! i"
    by (auto simp: nth_Cons')
  have h4: "pool_ok heap0"
    by (simp add: pool_ok_def heap0_def)
  have p1: "(Inr :: byte list \<Rightarrow> unit + byte list) [0x12, 0x34, 7, 8] = Inr [0x12, 0x34, 7, 8]"
    and p2: "(Inr :: byte list \<Rightarrow> unit + byte list) [0xAB, 0xCD, 7, 8] = Inr [0xAB, 0xCD, 7, 8]"
    by simp_all
  from transaction_id_independence
         [where pack = "Inr :: byte list \<Rightarrow> unit + byte list"
            and ?m1.0 = "[0x12, 0x34, 7, 8]" and ?m2.0 = "[0xAB, 0xCD, 7, 8]"
            and salt = 5 and bsalt = "[1, 2]", OF p1 p2 h1 h2 h3 h4 h4]
       h1 h2 h4
  show ?thesis
    by simp
qed

text \<open>
  C2. For every message and every 64-bit integer salt \<open>N\<close>,
  \<^verbatim>\<open>GetMsgKeyWithInt64Salt\<close> returns exactly what \<^verbatim>\<open>GetMsgKeyWithBytesSalt\<close> returns on
  the 8-byte big-endian encoding of \<open>N\<close> taken as an unsigned 64-bit value: the same
  key, the same error and the same store.
\<close>

theorem int64_salt_is_big_endian_bytes_salt:
  "GetMsgKeyWithInt64Salt pack m N s =
     GetMsgKeyWithBytesSalt pack m (big_endian_spec 8 (uint64_value N)) s"
  by (simp add: GetMsgKeyWithInt64Salt_def PutUint64_bytes uint64_value_unat)

theorem int64_salt_is_big_endian_bytes_salt_witness:
  "GetMsgKeyWithInt64Salt (Inr :: byte list \<Rightarrow> unit + byte list) [0x12, 0x34, 7] (- 2) heap0 =
     GetMsgKeyWithBytesSalt Inr [0x12, 0x34, 7]
       [0xFF, 0xFF, 0xFF, 0xFF, 0xFF, 0xFF, 0xFF, 0xFE] heap0"
proof -
  have "big_endian_spec 8 (uint64_value (- 2)) =
          [0xFF, 0xFF, 0xFF, 0xFF, 0xFF, 0xFF, 0xFF, 0xFE]"
    by (simp add: big_endian_spec_8 uint64_value_def)
  then show ?thesis
    using int64_salt_is_big_endian_bytes_salt
      [of "Inr :: byte list \<Rightarrow> unit + byte list" "[0x12, 0x34, 7]" "- 2" heap0]
    by simp
qed

text \<open>
  C3. When the wire serialization of the message is exactly the four bytes
  \<open>[0x12, 0x34, 0x00, 0x00]\<close> and the salt is \<open>[0xFF]\<close>,
  \<^verbatim>\<open>GetMsgKeyWithBytesSalt\<close> returns, with no error, the 5-byte string
  \<open>[0x00, 0x00, 0x00, 0x00, 0xFF]\<close>.
\<close>

theorem bytes_salt_scenario:
  assumes "pool_ok s" and "pack m = Inr [0x12, 0x34, 0x00, 0x00]"
  shows "\<exists>k s'. GetMsgKeyWithBytesSalt pack m [0xFF] s = (Ret k None, s')
           \<and> str_bytes s' k = [0x00, 0x00, 0x00, 0x00, 0xFF] \<and> str_len k = 5"
  using BytesSalt_Inr [where pack = pack and m = m and salt = "[0xFF]", OF assms]
  by auto

theorem bytes_salt_scenario_witness:
  "pool_ok heap0 \<and>
   (\<exists>k s'. GetMsgKeyWithBytesSalt (\<lambda>_. Inr [0x12, 0x34, 0x00, 0x00] :: unit + byte list) () [0xFF] heap0 =
              (Ret k None, s')
         \<and> str_bytes s' k = [0x00, 0x00, 0x00, 0x00, 0xFF] \<and> str_len k = 5)"
proof -
  have h: "pool_ok heap0"
    by (simp add: pool_ok_def heap0_def)
  show ?thesis
    using h bytes_salt_scenario
      [of heap0 "\<lambda>_. Inr [0x12, 0x34, 0x00, 0x00] :: unit + byte list" "()", OF h]
    by simp
qed

text \<open>
  C4. When the wire serialization of the message succeeds with at least two bytes,
  \<^verbatim>\<open>GetMsgKey\<close> returns, with no error, a key whose bytes are \<open>salt >> 8\<close> and
  \<open>salt & 0xFF\<close> followed by the wire bytes from the third on, with nothing appended;
  the key is as long as the wire.
\<close>

theorem msg_key_content:
  assumes "pack m = Inr w" and "2 \<le> length w"
  shows "\<exists>k s'. GetMsgKey pack m salt s = (Ret k None, s')
           \<and> str_bytes s' k = [ucast (drop_bit 8 salt), ucast (salt AND 0xFF)] @ drop 2 w
           \<and> str_len k = length w \<and> length (str_bytes s' k) = length w"
proof -
  from two_bytes [OF assms(2)] obtain x y r where w: "w = x # y # r"
    by blast
  from assms(1) have "pack m = Inr (x # y # r)"
    by (simp add: w)
  from GetMsgKey_Inr [where pack = pack and m = m, OF this] show ?thesis
    by (simp add: w str_bytes_def bytes_at_def low_byte)
qed

theorem msg_key_content_witness:
  "(2::nat) \<le> length [0x12, 0x34, 5, 6 :: byte] \<and>
   (\<exists>k s'. GetMsgKey (Inr :: byte list \<Rightarrow> unit + byte list) [0x12, 0x34, 5, 6] 0xABCD heap0 =
              (Ret k None, s')
         \<and> str_bytes s' k = [0xAB, 0xCD, 5, 6] \<and> str_len k = 4 \<and> length (str_bytes s' k) = 4)"
proof -
  have h: "(2::nat) \<le> length [0x12, 0x34, 5, 6 :: byte]"
    by simp
  have p: "(Inr :: byte list \<Rightarrow> unit + byte list) [0x12, 0x34, 5, 6] = Inr [0x12, 0x34, 5, 6]"
    by simp
  have b: "(ucast (drop_bit 8 (0xABCD :: 16 word)) :: byte) = 0xAB"
          "(ucast ((0xABCD :: 16 word) AND 0xFF) :: byte) = 0xCD"
    by simp_all
  from msg_key_content [of "Inr :: byte list \<Rightarrow> unit + byte list" "[0x12, 0x34, 5, 6]"
        "[0x12, 0x34, 5, 6]" "0xABCD" heap0, OF p h]
  obtain k s' where r: "GetMsgKey (Inr :: byte list \<Rightarrow> unit + byte list) [0x12, 0x34, 5, 6] 0xABCD heap0 =
        (Ret k None, s')"
    and c: "str_bytes s' k = [ucast (drop_bit 8 (0xABCD :: 16 word)), ucast ((0xABCD :: 16 word) AND 0xFF)] @
              drop 2 [0x12, 0x34, 5, 6]"
    and l: "str_len k = length [0x12, 0x34, 5, 6 :: byte]"
           "length (str_bytes s' k) = length [0x12, 0x34, 5, 6 :: byte]"
    by blast
  from c have "str_bytes s' k = [0xAB, 0xCD, 5, 6]"
    by (simp add: b)
  moreover from l have "str_len k = 4" "length (str_bytes s' k) = 4"
    by simp_all
  ultimately show ?thesis
    using h r by blast
qed



text \<open>
  C6, as stated: any two pairs of message and salt that differ after the id is zeroed get
  distinct keys from \<^verbatim>\<open>GetMsgKeyWithBytesSalt\<close>. The key is the zeroed wire followed
  directly by the salt, so a wire and salt can be cut differently and give the same key:
  the wire \<open>[0x12, 0x34, 0, 0]\<close> with salt \<open>[0xFF]\<close> and the wire
  \<open>[0x12, 0x34, 0, 0, 0xFF]\<close> with the empty salt both give \<open>[0, 0, 0, 0, 0xFF]\<close>.
\<close>

theorem distinct_pairs_same_key_counterexample:
  "observe (GetMsgKeyWithBytesSalt (Inr :: byte list \<Rightarrow> unit + byte list)
      [0x12, 0x34, 0, 0] [0xFF] heap0) = ObsRet [0, 0, 0, 0, 0xFF] None
   \<and> observe (GetMsgKeyWithBytesSalt (Inr :: byte list \<Rightarrow> unit + byte list)
      [0x12, 0x34, 0, 0, 0xFF] [] heap0) = ObsRet [0, 0, 0, 0, 0xFF] None
   \<and> [0, 0, 0, 0 :: byte] \<noteq> [0, 0, 0, 0, 0xFF] \<and> [0xFF :: byte] \<noteq> []"
  by (simp add: BytesSalt_observe heap0_ok)

text \<open>
  C6, amended: when the two wire serializations have the same length, or the two salts
  have the same length, pairs that differ after the id is zeroed (in the zeroed wire or
  in the salt) get distinct keys from \<^verbatim>\<open>GetMsgKeyWithBytesSalt\<close>. In particular two
  different salts give one message two different keys.
\<close>

theorem distinct_pairs_distinct_keys:
  assumes "pool_ok s1" and "pool_ok s2"
    and "pack m1 = Inr w1" and "pack m2 = Inr w2"
    and "2 \<le> length w1" and "2 \<le> length w2"
    and "length w1 = length w2 \<or> length salt1 = length salt2"
    and "0 # 0 # drop 2 w1 \<noteq> 0 # 0 # drop 2 w2 \<or> salt1 \<noteq> salt2"
  shows "observe (GetMsgKeyWithBytesSalt pack m1 salt1 s1) \<noteq>
         observe (GetMsgKeyWithBytesSalt pack m2 salt2 s2)"
proof -
  from assms(7) have "length (drop 2 w1) = length (drop 2 w2) \<or> length salt1 = length salt2"
    by auto
  then have "(drop 2 w1 @ salt1 = drop 2 w2 @ salt2) = (drop 2 w1 = drop 2 w2 \<and> salt1 = salt2)"
    by (rule append_eq_append_conv)
  with assms show ?thesis
    by (simp add: BytesSalt_observe)
qed

theorem distinct_pairs_distinct_keys_witness:
  "pool_ok heap0 \<and> (2::nat) \<le> length [0x12, 0x34, 0, 0 :: byte]
   \<and> observe (GetMsgKeyWithBytesSalt (Inr :: byte list \<Rightarrow> unit + byte list)
        [0x12, 0x34, 0, 0] [0x41] heap0) \<noteq>
      observe (GetMsgKeyWithBytesSalt (Inr :: byte list \<Rightarrow> unit + byte list)
        [0x12, 0x34, 0, 0] [0x42] heap0)"
proof -
  have h: "(2::nat) \<le> length [0x12, 0x34, 0, 0 :: byte]"
    by simp
  have p: "(Inr :: byte list \<Rightarrow> unit + byte list) [0x12, 0x34, 0, 0] = Inr [0x12, 0x34, 0, 0]"
    by simp
  have l: "length [0x12, 0x34, 0, 0 :: byte] = length [0x12, 0x34, 0, 0 :: byte]
             \<or> length [0x41 :: byte] = length [0x42 :: byte]"
    by simp
  have d: "0 # 0 # drop 2 [0x12, 0x34, 0, 0 :: byte] \<noteq> 0 # 0 # drop 2 [0x12, 0x34, 0, 0]
             \<or> [0x41 :: byte] \<noteq> [0x42]"
    by simp
  from distinct_pairs_distinct_keys
         [where pack = "Inr :: byte list \<Rightarrow> unit + byte list"
            and ?m1.0 = "[0x12, 0x34, 0, 0]" and ?m2.0 = "[0x12, 0x34, 0, 0]",
          OF heap0_ok heap0_ok p p h h l d] heap0_ok h
  show ?thesis
    by blast
qed

text \<open>
  C7. Calling the same entry point twice on the same message and salt, each call
  serializing afresh, gives byte-identical keys and the same error: what a call returns
  depends on its message and salt only, not on the store it starts from, be that an
  unrelated store or the one the first call left behind.
\<close>

theorem key_derivation_deterministic:
  assumes "pool_ok s" and "pool_ok t"
  shows "observe (GetMsgKey pack m salt s) = observe (GetMsgKey pack m salt t)
       \<and> observe (GetMsgKeyWithBytesSalt pack m bsalt s) =
           observe (GetMsgKeyWithBytesSalt pack m bsalt t)
       \<and> observe (GetMsgKeyWithInt64Salt pack m isalt s) =
           observe (GetMsgKeyWithInt64Salt pack m isalt t)
       \<and> observe (GetMsgKey pack m salt (snd (GetMsgKey pack m salt s))) =
           observe (GetMsgKey pack m salt s)
       \<and> observe (GetMsgKeyWithBytesSalt pack m bsalt
             (snd (GetMsgKeyWithBytesSalt pack m bsalt s))) =
           observe (GetMsgKeyWithBytesSalt pack m bsalt s)
       \<and> observe (GetMsgKeyWithInt64Salt pack m isalt
             (snd (GetMsgKeyWithInt64Salt pack m isalt s))) =
           observe (GetMsgKeyWithInt64Salt pack m isalt s)"
proof -
  have "pool_ok (snd (GetMsgKeyWithBytesSalt pack m b s))" for b
    using BytesSalt_frame [where pack = pack and m = m and salt = b, OF assms(1)]
    by simp
  with assms show ?thesis
    by (simp add: GetMsgKey_observe BytesSalt_observe Int64Salt_unfold)
qed

theorem key_derivation_deterministic_witness:
  "pool_ok heap0
   \<and> pool_ok (snd (GetMsgKeyWithBytesSalt (Inr :: byte list \<Rightarrow> unit + byte list) [1, 2, 3] [] heap0))
   \<and> observe (GetMsgKeyWithBytesSalt (Inr :: byte list \<Rightarrow> unit + byte list) [0x12, 0x34, 7] [9] heap0) =
       observe (GetMsgKeyWithBytesSalt (Inr :: byte list \<Rightarrow> unit + byte list) [0x12, 0x34, 7] [9]
         (snd (GetMsgKeyWithBytesSalt (Inr :: byte list \<Rightarrow> unit + byte list) [1, 2, 3] [] heap0)))"
proof -
  have h: "pool_ok (snd (GetMsgKeyWithBytesSalt (Inr :: byte list \<Rightarrow> unit + byte list) [1, 2, 3] [] heap0))"
    using BytesSalt_frame [where pack = "Inr :: byte list \<Rightarrow> unit + byte list" and m = "[1, 2, 3]"
        and salt = "[]", OF heap0_ok]
    by simp
  from key_derivation_deterministic
         [where pack = "Inr :: byte list \<Rightarrow> unit + byte list" and m = "[0x12, 0x34, 7]"
            and bsalt = "[9]", OF heap0_ok h] heap0_ok h
  show ?thesis
    by blast
qed

text \<open>
  C8. The key returned by \<^verbatim>\<open>GetMsgKeyWithBytesSalt\<close> is a copy of its own and shares
  no memory with the pooled wire buffer: when the call returns, the buffer is back in
  the pool, the key's array is neither that buffer nor any buffer of the pool, and a
  later call, which may take the buffer out of the pool and overwrite it, leaves the
  bytes of the key as they were. So does whatever else changes only buffers lying in
  the pool and arrays allocated later.
\<close>

theorem bytes_salt_key_is_owned_copy:
  assumes "pool_ok s" and "GetMsgKeyWithBytesSalt pack m salt s = (Ret k None, s1)"
  shows "(\<exists>wireMsg buf. fst (PackBuffer pack m s) = Inr (wireMsg, buf) \<and> sptr wireMsg = buf
            \<and> buf \<in> set (pool_free s1) \<and> str_ptr k \<noteq> buf)
       \<and> str_ptr k \<notin> set (pool_free s1) \<and> str_ptr k \<notin> set (pool_out s1)
       \<and> str_bytes (snd (GetMsgKeyWithBytesSalt pack' m' salt' s1)) k = str_bytes s1 k
       \<and> ((\<forall>a. a < brk s1 \<longrightarrow> a \<notin> set (pool_free s1) \<longrightarrow> mem t a = mem s1 a) \<longrightarrow>
            str_bytes t k = str_bytes s1 k)"
proof (cases "pack m")
  case (Inl e)
  from BytesSalt_Inl [where pack = pack and m = m and salt = salt, OF assms(1) Inl] assms(2)
  show ?thesis
    by auto
next
  case (Inr w)
  show ?thesis
  proof (cases "length w < 2")
    case True
    from BytesSalt_short [where pack = pack and m = m and salt = salt, OF assms(1) Inr True]
      assms(2)
    show ?thesis
      by auto
  next
    case False
    then have "2 \<le> length w" by simp
    from two_bytes [OF this] obtain x y r where w: "w = x # y # r"
      by blast
    from Inr have "pack m = Inr (x # y # r)"
      by (simp add: w)
    from BytesSalt_Inr [where pack = pack and m = m and salt = salt, OF assms(1) this] assms(2)
    obtain wireMsg buf where
      pb: "fst (PackBuffer pack m s) = Inr (wireMsg, buf)" "sptr wireMsg = buf"
      and ok1: "pool_ok s1"
      and buf: "buf \<in> set (pool_free s1)" "str_ptr k \<noteq> buf"
      and k: "str_ptr k < brk s1" "str_ptr k \<notin> set (pool_free s1)" "str_ptr k \<notin> set (pool_out s1)"
      by auto
    have keep: "str_bytes u k = str_bytes s1 k"
      if "\<forall>a. a < brk s1 \<longrightarrow> a \<notin> set (pool_free s1) \<longrightarrow> mem u a = mem s1 a" for u
    proof -
      from that k have "mem u (str_ptr k) = mem s1 (str_ptr k)"
        by blast
      then show ?thesis
        by (simp add: str_bytes_def bytes_at_def)
    qed
    from BytesSalt_frame [where pack = pack' and m = m' and salt = salt', OF ok1]
    have "str_bytes (snd (GetMsgKeyWithBytesSalt pack' m' salt' s1)) k = str_bytes s1 k"
      by (intro keep) blast
    with pb buf k keep [of t] show ?thesis
      by blast
  qed
qed

theorem bytes_salt_key_is_owned_copy_witness:
  "pool_ok heap0
   \<and> fst (GetMsgKeyWithBytesSalt (Inr :: byte list \<Rightarrow> unit + byte list) [0x12, 0x34, 7, 8] [9] heap0) =
       Ret \<lparr>str_ptr = 2, str_len = 5\<rparr> None
   \<and> pool_free (snd (GetMsgKeyWithBytesSalt (Inr :: byte list \<Rightarrow> unit + byte list)
         [0x12, 0x34, 7, 8] [9] heap0)) = [1]
   \<and> bytes_at (snd (GetMsgKeyWithBytesSalt (Inr :: byte list \<Rightarrow> unit + byte list)
         [0x12, 0x34, 7, 8] [9] heap0)) 1 = [0, 0, 7, 8]
   \<and> str_bytes (snd (GetMsgKeyWithBytesSalt (Inr :: byte list \<Rightarrow> unit + byte list)
         [0x12, 0x34, 7, 8] [9] heap0)) \<lparr>str_ptr = 2, str_len = 5\<rparr> = [0, 0, 7, 8, 9]
   \<and> bytes_at (snd (GetMsgKeyWithBytesSalt (Inr :: byte list \<Rightarrow> unit + byte list) [0xAB, 0xCD, 1, 1] []
         (snd (GetMsgKeyWithBytesSalt (Inr :: byte list \<Rightarrow> unit + byte list)
           [0x12, 0x34, 7, 8] [9] heap0)))) 1 = [0, 0, 1, 1]
   \<and> str_bytes (snd (GetMsgKeyWithBytesSalt (Inr :: byte list \<Rightarrow> unit + byte list) [0xAB, 0xCD, 1, 1] []
         (snd (GetMsgKeyWithBytesSalt (Inr :: byte list \<Rightarrow> unit + byte list)
           [0x12, 0x34, 7, 8] [9] heap0)))) \<lparr>str_ptr = 2, str_len = 5\<rparr> = [0, 0, 7, 8, 9]"
proof -
  define s1 where "s1 = snd (GetMsgKeyWithBytesSalt (Inr :: byte list \<Rightarrow> unit + byte list)
         [0x12, 0x34, 7, 8] [9] heap0)"
  have s1: "s1 = \<lparr>mem = [Suc 0 \<mapsto> [0, 0, 7, 8], Suc (Suc 0) \<mapsto> [0, 0, 7, 8, 9]],
         brk = Suc (Suc (Suc 0)), pool_free = [Suc 0], pool_out = []\<rparr>"
    unfolding s1_def by (simp add: run_defs)
  have r1: "fst (GetMsgKeyWithBytesSalt (Inr :: byte list \<Rightarrow> unit + byte list)
         [0x12, 0x34, 7, 8] [9] heap0) = Ret \<lparr>str_ptr = 2, str_len = 5\<rparr> None"
    by (simp add: run_defs)
  have e1: "GetMsgKeyWithBytesSalt (Inr :: byte list \<Rightarrow> unit + byte list)
         [0x12, 0x34, 7, 8] [9] heap0 = (Ret \<lparr>str_ptr = 2, str_len = 5\<rparr> None, s1)"
    using r1 by (simp add: s1_def prod_eq_iff)
  have a: "pool_free s1 = [1]" "bytes_at s1 1 = [0, 0, 7, 8]"
    "str_bytes s1 \<lparr>str_ptr = 2, str_len = 5\<rparr> = [0, 0, 7, 8, 9]"
    by (simp_all add: s1 bytes_at_def str_bytes_def)
  have b: "bytes_at (snd (GetMsgKeyWithBytesSalt (Inr :: byte list \<Rightarrow> unit + byte list)
         [0xAB, 0xCD, 1, 1] [] s1)) 1 = [0, 0, 1, 1]"
    unfolding s1 by (simp add: run_defs)
  from bytes_salt_key_is_owned_copy
         [where pack = "Inr :: byte list \<Rightarrow> unit + byte list"
            and pack' = "Inr :: byte list \<Rightarrow> unit + byte list" and m' = "[0xAB, 0xCD, 1, 1]"
            and salt' = "[]", OF heap0_ok e1]
  have "str_bytes (snd (GetMsgKeyWithBytesSalt (Inr :: byte list \<Rightarrow> unit + byte list)
         [0xAB, 0xCD, 1, 1] [] s1)) \<lparr>str_ptr = 2, str_len = 5\<rparr> =
        str_bytes s1 \<lparr>str_ptr = 2, str_len = 5\<rparr>"
    by blast
  with a b r1 heap0_ok show ?thesis
    unfolding s1_def by simp
qed

text \<open>
  C9. When the owned and the pooled serialization give the same wire bytes, at least two
  of them, \<^verbatim>\<open>GetMsgKey\<close> with salt 0 and \<^verbatim>\<open>GetMsgKeyWithBytesSalt\<close> with the empty
  salt return keys with the same bytes: the wire with its first two bytes zeroed and
  nothing appended.
\<close>

theorem zero_salt_is_empty_bytes_salt:
  assumes "pack m = Inr w" and "packb m = Inr w" and "2 \<le> length w" and "pool_ok t"
  shows "observe (GetMsgKey pack m 0 s) = ObsRet (0 # 0 # drop 2 w) None
       \<and> observe (GetMsgKeyWithBytesSalt packb m [] t) = ObsRet (0 # 0 # drop 2 w) None"
  using assms by (simp add: GetMsgKey_observe BytesSalt_observe)

theorem zero_salt_is_empty_bytes_salt_witness:
  "(2::nat) \<le> length [0x12, 0x34, 7, 8 :: byte] \<and> pool_ok heap0
   \<and> observe (GetMsgKey (Inr :: byte list \<Rightarrow> unit + byte list) [0x12, 0x34, 7, 8] 0 heap0) =
       ObsRet [0, 0, 7, 8] None
   \<and> observe (GetMsgKeyWithBytesSalt (Inr :: byte list \<Rightarrow> unit + byte list) [0x12, 0x34, 7, 8] [] heap0) =
       ObsRet [0, 0, 7, 8] None"
proof -
  have h: "(2::nat) \<le> length [0x12, 0x34, 7, 8 :: byte]"
    by simp
  have p: "(Inr :: byte list \<Rightarrow> unit + byte list) [0x12, 0x34, 7, 8] = Inr [0x12, 0x34, 7, 8]"
    by simp
  from zero_salt_is_empty_bytes_salt
         [where pack = "Inr :: byte list \<Rightarrow> unit + byte list"
            and packb = "Inr :: byte list \<Rightarrow> unit + byte list"
            and m = "[0x12, 0x34, 7, 8]" and s = heap0, OF p p h heap0_ok] h heap0_ok
  show ?thesis
    by simp
qed

text \<open>
  C10. With an empty symbol \<^verbatim>\<open>SplitString2\<close> returns the empty string, the whole
  string and true. With a non-empty symbol, whenever it returns true, the first part, the
  symbol and the second part concatenated are the string again, and the first part is
  what stands before the first occurrence of the symbol: no occurrence starts inside it.
\<close>

theorem split_string_parts:
  "SplitString2 s [] = Some ([], s, True)
   \<and> (symbol \<noteq> [] \<longrightarrow> SplitString2 s symbol = Some (s1, s2, True) \<longrightarrow>
         s1 @ symbol @ s2 = s \<and> (\<forall>j<length s1. \<not> prefix symbol (drop j s)))"
proof (intro conjI impI)
  show "SplitString2 s [] = Some ([], s, True)"
    by (simp add: SplitString2_def)
next
  assume ne: "symbol \<noteq> []" and r: "SplitString2 s symbol = Some (s1, s2, True)"
  have found: "0 \<le> Index s symbol"
    using SplitString2_missing [OF ne, of s] r by auto
  define i where "i = nat (Index s symbol)"
  from SplitString2_found [OF ne found] r
  have s1: "s1 = take i s" and s2: "s2 = drop (i + length symbol) s"
    by (simp_all add: i_def)
  from Index_first [OF found]
  have p: "prefix symbol (drop i s)" and first: "\<forall>j<i. \<not> prefix symbol (drop j s)"
    by (simp_all add: i_def)
  from p obtain r where d: "drop i s = symbol @ r"
    by (auto simp: prefix_def)
  then have "drop (i + length symbol) s = r"
    by (metis add.commute append_eq_conv_conj drop_drop)
  with d have "take i s @ symbol @ drop (i + length symbol) s = s"
    by (metis append_take_drop_id)
  then show "s1 @ symbol @ s2 = s"
    by (simp add: s1 s2)
  from Index_range [of s symbol] found have "i \<le> length s"
    by (auto simp: i_def)
  with first show "\<forall>j<length s1. \<not> prefix symbol (drop j s)"
    by (simp add: s1)
qed

theorem split_string_parts_witness:
  "SplitString2 ''tcp://a://b'' ''://'' = Some (''tcp'', ''a://b'', True)
   \<and> ''tcp'' @ ''://'' @ ''a://b'' = ''tcp://a://b''
   \<and> \<not> prefix ''://'' (drop 0 ''tcp://a://b'')
   \<and> \<not> prefix ''://'' (drop 1 ''tcp://a://b'')
   \<and> \<not> prefix ''://'' (drop 2 ''tcp://a://b'')"
proof -
  have r: "SplitString2 ''tcp://a://b'' ''://'' = Some (''tcp'', ''a://b'', True)"
    by (simp add: SplitString2_def substr_def Let_def)
  have ne: "''://'' \<noteq> []"
    by simp
  from split_string_parts [of "''tcp://a://b''" "''://''" "''tcp''" "''a://b''"] ne r
  have "''tcp'' @ ''://'' @ ''a://b'' = ''tcp://a://b''"
    and "\<forall>j<length ''tcp''. \<not> prefix ''://'' (drop j ''tcp://a://b'')"
    by blast+
  with r show ?thesis
    by simp
qed

end
